theory Spec2Isabelle
  imports Complex_Main
begin

section \<open>Strings and arrays as the TypeScript code uses them\<close>

text \<open>
  Source: \<^verbatim>\<open>lib/artifact-management/version-control.ts\<close> (diff, merge, similarity) and
  \<^verbatim>\<open>lib/db/queries-artifacts.ts\<close> with \<^verbatim>\<open>lib/db/schema-artifacts.ts\<close> (version store).

  A JavaScript string is modelled as a \<^typ>\<open>string\<close>; the only character the code
  inspects is the line feed.
\<close>

definition newline :: char where
  "newline = CHR 0x0A"

text \<open>
  \<^verbatim>\<open>s.split('\n')\<close>: the pieces between line feeds. The result is never empty:
  \<^verbatim>\<open>''.split('\n')\<close> is \<^verbatim>\<open>['']\<close>.
\<close>

fun split_nl :: "string \<Rightarrow> string list" where
  "split_nl [] = ['''']"
| "split_nl (c # cs) =
     (if c = newline then [] # split_nl cs
      else (case split_nl cs of [] \<Rightarrow> [c # ''''] | l # ls \<Rightarrow> (c # l) # ls))"

text \<open>\<^verbatim>\<open>lines.join('\n')\<close>.\<close>

fun join_nl :: "string list \<Rightarrow> string" where
  "join_nl [] = []"
| "join_nl [l] = l"
| "join_nl (l # l' # ls) = l @ newline # join_nl (l' # ls)"

text \<open>
  \<^verbatim>\<open>xs[i]\<close>: reading an array past its end gives \<^verbatim>\<open>undefined\<close>, here \<^const>\<open>None\<close>.
\<close>

definition nth_opt :: "'a list \<Rightarrow> nat \<Rightarrow> 'a option" where
  "nth_opt xs i = (if i < length xs then Some (xs ! i) else None)"

text \<open>\<^verbatim>\<open>line || ''\<close>: \<^verbatim>\<open>undefined\<close> and the empty string are falsy, both give \<^verbatim>\<open>''\<close>.\<close>

definition or_empty :: "string option \<Rightarrow> string" where
  "or_empty l = (case l of None \<Rightarrow> [] | Some s \<Rightarrow> (if s = [] then [] else s))"

section \<open>generateDiff\<close>

record Modification =
  mod_line :: nat
  mod_old :: string
  mod_new :: string

record DiffStats =
  addedLines :: nat
  deletedLines :: nat
  modifiedLines :: nat

record DiffResult =
  additions :: "string list"
  deletions :: "string list"
  modifications :: "Modification list"
  stats :: DiffStats

text \<open>
  The body of the loop at index \<open>i\<close>, on the three arrays the loop pushes to.
  When both lines are defined the third branch compares them; both cannot be undefined
  below \<open>maxLines\<close>, and \<^verbatim>\<open>undefined !== undefined\<close> is false.
\<close>

definition diff_step ::
  "string list \<Rightarrow> string list \<Rightarrow> nat \<Rightarrow>
   string list \<times> string list \<times> Modification list \<Rightarrow>
   string list \<times> string list \<times> Modification list" where
  "diff_step oldLines newLines i acc =
     (case acc of (adds, dels, mods) \<Rightarrow>
        (case (nth_opt oldLines i, nth_opt newLines i) of
           (None, Some newLine) \<Rightarrow> (adds @ [newLine], dels, mods)
         | (Some oldLine, None) \<Rightarrow> (adds, dels @ [oldLine], mods)
         | (Some oldLine, Some newLine) \<Rightarrow>
             (if oldLine \<noteq> newLine
              then (adds, dels,
                    mods @ [\<lparr>mod_line = i + 1, mod_old = oldLine, mod_new = newLine\<rparr>])
              else (adds, dels, mods))
         | (None, None) \<Rightarrow> (adds, dels, mods)))"

function diff_loop ::
  "string list \<Rightarrow> string list \<Rightarrow> nat \<Rightarrow> nat \<Rightarrow>
   string list \<times> string list \<times> Modification list \<Rightarrow>
   string list \<times> string list \<times> Modification list" where
  "diff_loop oldLines newLines maxLines i acc =
     (if i < maxLines
      then diff_loop oldLines newLines maxLines (Suc i) (diff_step oldLines newLines i acc)
      else acc)"
  by pat_completeness auto
termination
  by (relation "measure (\<lambda>(oldLines, newLines, maxLines, i, acc). maxLines - i)") auto

definition generateDiff :: "string \<Rightarrow> string \<Rightarrow> DiffResult" where
  "generateDiff oldContent newContent =
     (let oldLines = split_nl oldContent;
          newLines = split_nl newContent;
          maxLines = max (length oldLines) (length newLines)
      in (case diff_loop oldLines newLines maxLines 0 ([], [], []) of
            (adds, dels, mods) \<Rightarrow>
              \<lparr>additions = adds, deletions = dels, modifications = mods,
               stats = \<lparr>addedLines = length adds, deletedLines = length dels,
                        modifiedLines = length mods\<rparr>\<rparr>))"

section \<open>mergeContent\<close>

record MergeConflict =
  conflict_line :: nat
  conflict_current :: string
  conflict_incoming :: string
  conflict_base :: "string option"

record MergeResult =
  success :: bool
  merged_content :: "string option"
  conflicts :: "MergeConflict list option"

definition merge_step ::
  "string list \<Rightarrow> string list \<Rightarrow> string list \<Rightarrow> nat \<Rightarrow>
   MergeConflict list \<times> string list \<Rightarrow> MergeConflict list \<times> string list" where
  "merge_step baseLines currentLines incomingLines i acc =
     (case acc of (cs, mergedLines) \<Rightarrow>
        (let baseLine = nth_opt baseLines i;
             currentLine = nth_opt currentLines i;
             incomingLine = nth_opt incomingLines i
         in if currentLine = incomingLine
            then (cs, mergedLines @ [or_empty currentLine])
            else if currentLine = baseLine \<and> incomingLine \<noteq> baseLine
            then (cs, mergedLines @ [or_empty incomingLine])
            else if incomingLine = baseLine \<and> currentLine \<noteq> baseLine
            then (cs, mergedLines @ [or_empty currentLine])
            else (cs @ [\<lparr>conflict_line = i + 1,
                          conflict_current = or_empty currentLine,
                          conflict_incoming = or_empty incomingLine,
                          conflict_base = baseLine\<rparr>],
                  mergedLines @ [''<<<<<<< current'', or_empty currentLine, ''======='',
                                 or_empty incomingLine, ''>>>>>>> incoming''])))"

function merge_loop ::
  "string list \<Rightarrow> string list \<Rightarrow> string list \<Rightarrow> nat \<Rightarrow> nat \<Rightarrow>
   MergeConflict list \<times> string list \<Rightarrow> MergeConflict list \<times> string list" where
  "merge_loop baseLines currentLines incomingLines maxLines i acc =
     (if i < maxLines
      then merge_loop baseLines currentLines incomingLines maxLines (Suc i)
             (merge_step baseLines currentLines incomingLines i acc)
      else acc)"
  by pat_completeness auto
termination
  by (relation "measure (\<lambda>(b, c, inc, maxLines, i, acc). maxLines - i)") auto

definition mergeContent :: "string \<Rightarrow> string \<Rightarrow> string \<Rightarrow> MergeResult" where
  "mergeContent baseContent currentContent incomingContent =
     (let baseLines = split_nl baseContent;
          currentLines = split_nl currentContent;
          incomingLines = split_nl incomingContent;
          maxLines = max (max (length baseLines) (length currentLines)) (length incomingLines)
      in (case merge_loop baseLines currentLines incomingLines maxLines 0 ([], []) of
            (cs, mergedLines) \<Rightarrow>
              \<lparr>success = (length cs = 0),
               merged_content = Some (join_nl mergedLines),
               conflicts = (if length cs > 0 then Some cs else None)\<rparr>))"

section \<open>calculateSimilarity\<close>

function matching_loop ::
  "string list \<Rightarrow> string list \<Rightarrow> nat \<Rightarrow> nat \<Rightarrow> nat \<Rightarrow> nat" where
  "matching_loop lines1 lines2 minLines i matchingLines =
     (if i < minLines
      then matching_loop lines1 lines2 minLines (Suc i)
             (if nth_opt lines1 i = nth_opt lines2 i then matchingLines + 1 else matchingLines)
      else matchingLines)"
  by pat_completeness auto
termination
  by (relation "measure (\<lambda>(l1, l2, minLines, i, m). minLines - i)") auto

text \<open>
  The result is a JavaScript number, the quotient of two small non-negative integers;
  it is modelled by the exact quotient.
\<close>

definition calculateSimilarity :: "string \<Rightarrow> string \<Rightarrow> real" where
  "calculateSimilarity content1 content2 =
     (let lines1 = split_nl content1;
          lines2 = split_nl content2;
          totalLines = max (length lines1) (length lines2)
      in if totalLines = 0 then 1
         else (let minLines = min (length lines1) (length lines2);
                   matchingLines = matching_loop lines1 lines2 minLines 0 0
               in real matchingLines / real totalLines))"

section \<open>The version store: tables\<close>

text \<open>
  The tables of \<^verbatim>\<open>schema-artifacts.ts\<close> that the version operations read and write.
  A \<^verbatim>\<open>uuid\<close> column is a string; an identifier that is not a well-formed uuid is
  rejected by the database and is never stored, like one that names no row. Timestamps
  are numbers. A nullable column is an \<^typ>\<open>'a option\<close>.
\<close>

type_synonym uuid = string

record ArtifactVersion =
  av_id :: uuid
  av_artifactId :: uuid
  av_version :: int
  av_commitHash :: string
  av_parentVersionId :: "uuid option"
  av_title :: string
  av_content :: string
  av_contentHash :: string
  av_commitMessage :: "string option"
  av_authorId :: uuid
  av_createdAt :: nat
  av_isActive :: bool
  av_metadata :: "string option"

record ArtifactBranch =
  ab_id :: uuid
  ab_artifactId :: uuid
  ab_name :: string
  ab_headVersionId :: uuid
  ab_isDefault :: bool
  ab_createdAt :: nat
  ab_updatedAt :: nat

datatype Action = Create | Update | Delete | Restore | Branch | Merge | Tag

text \<open>The \<^verbatim>\<open>details\<close> json that \<^verbatim>\<open>createArtifactVersion\<close> logs: commit message and version.\<close>

datatype Details = Details "string option" int

record ArtifactChangeLog =
  cl_id :: uuid
  cl_artifactId :: uuid
  cl_versionId :: "uuid option"
  cl_action :: Action
  cl_userId :: uuid
  cl_details :: "Details option"
  cl_timestamp :: nat

text \<open>
  Modelled from the spec: the \<^verbatim>\<open>Document\<close> and \<^verbatim>\<open>User\<close> tables of \<^verbatim>\<open>./schema\<close>, which
  the source imports and which are not part of the files at hand. An artifact is an
  identity with its current title and content, owned by a user; the code reads
  \<^verbatim>\<open>user.id\<close> and \<^verbatim>\<open>user.email\<close>. Both tables are keyed by their id.
\<close>

record Document =
  doc_title :: string
  doc_content :: string
  doc_userId :: uuid

record Database =
  document :: "uuid \<rightharpoonup> Document"
  user :: "uuid \<rightharpoonup> string"
  artifactVersion :: "ArtifactVersion list"
  artifactBranch :: "ArtifactBranch list"
  artifactChangeLog :: "ArtifactChangeLog list"

text \<open>
  What the runtime and the database supply to one call: the SHA-256 hex digest of
  \<^verbatim>\<open>crypto\<close>, \<^verbatim>\<open>Date.now()\<close>, the column defaults \<^verbatim>\<open>defaultRandom()\<close> for each inserted
  row and \<^verbatim>\<open>defaultNow()\<close>.
\<close>

record Env =
  sha256 :: "string \<Rightarrow> string"
  dateNow :: nat
  newVersionId :: uuid
  newLogId :: uuid
  newBranchId :: uuid
  dbNow :: nat

datatype ChatSDKError = ChatSDKError string string

section \<open>The version store: numbers in template literals\<close>

definition digit_char :: "nat \<Rightarrow> char" where
  "digit_char d = ''0123456789'' ! d"

fun show_nat :: "nat \<Rightarrow> string" where
  "show_nat n = (if n < 10 then [digit_char n] else show_nat (n div 10) @ [digit_char (n mod 10)])"

definition show_int :: "int \<Rightarrow> string" where
  "show_int i = (if i < 0 then CHR ''-'' # show_nat (nat (- i)) else show_nat (nat i))"

section \<open>The version store: operations\<close>

definition generateContentHash :: "Env \<Rightarrow> string \<Rightarrow> string" where
  "generateContentHash env content = sha256 env content"

definition generateCommitHash :: "Env \<Rightarrow> uuid \<Rightarrow> int \<Rightarrow> string \<Rightarrow> string" where
  "generateCommitHash env artifactId version content =
     sha256 env (artifactId @ '':'' @ show_int version @ '':'' @ content @ '':'' @
                 show_nat (dateNow env))"

text \<open>
  The constraints the schema puts on a row of \<^verbatim>\<open>ArtifactVersion\<close>: primary key,
  the three references, the unique commit hash and the range of an \<^verbatim>\<open>integer\<close>
  column. A digest has 64 characters, which is what the two \<^verbatim>\<open>varchar(64)\<close> hold.
\<close>

definition version_insert_ok :: "Database \<Rightarrow> ArtifactVersion \<Rightarrow> bool" where
  "version_insert_ok db r \<longleftrightarrow>
     av_id r \<notin> set (map av_id (artifactVersion db))
     \<and> document db (av_artifactId r) \<noteq> None
     \<and> (case av_parentVersionId r of None \<Rightarrow> True
         | Some p \<Rightarrow> p \<in> set (map av_id (artifactVersion db)))
     \<and> user db (av_authorId r) \<noteq> None
     \<and> av_commitHash r \<notin> set (map av_commitHash (artifactVersion db))
     \<and> - 2147483648 \<le> av_version r \<and> av_version r \<le> 2147483647"

definition log_insert_ok :: "Database \<Rightarrow> ArtifactChangeLog \<Rightarrow> bool" where
  "log_insert_ok db r \<longleftrightarrow>
     cl_id r \<notin> set (map cl_id (artifactChangeLog db))
     \<and> document db (cl_artifactId r) \<noteq> None
     \<and> (case cl_versionId r of None \<Rightarrow> True
         | Some v \<Rightarrow> v \<in> set (map av_id (artifactVersion db)))
     \<and> user db (cl_userId r) \<noteq> None"

text \<open>The schema of \<^verbatim>\<open>ArtifactBranch\<close> has no constraint on the pair of artifact and name.\<close>

definition branch_insert_ok :: "Database \<Rightarrow> ArtifactBranch \<Rightarrow> bool" where
  "branch_insert_ok db r \<longleftrightarrow>
     ab_id r \<notin> set (map ab_id (artifactBranch db))
     \<and> document db (ab_artifactId r) \<noteq> None
     \<and> length (ab_name r) \<le> 100
     \<and> ab_headVersionId r \<in> set (map av_id (artifactVersion db))"

definition logArtifactChange ::
  "Env \<Rightarrow> uuid \<Rightarrow> uuid option \<Rightarrow> Action \<Rightarrow> uuid \<Rightarrow> Details option \<Rightarrow> Database \<Rightarrow>
   (ChatSDKError + unit) \<times> Database" where
  "logArtifactChange env artifactId versionId action userId details db =
     (let row = \<lparr>cl_id = newLogId env, cl_artifactId = artifactId, cl_versionId = versionId,
                 cl_action = action, cl_userId = userId, cl_details = details,
                 cl_timestamp = dbNow env\<rparr>
      in if log_insert_ok db row
         then (Inr (), db\<lparr>artifactChangeLog := artifactChangeLog db @ [row]\<rparr>)
         else (Inl (ChatSDKError ''bad_request:database'' ''Failed to log artifact change''), db))"

text \<open>
  \<^verbatim>\<open>select version ... where artifactId = ? order by version desc limit 1\<close>, destructured
  into its first row.
\<close>

definition select_latest_version :: "Database \<Rightarrow> uuid \<Rightarrow> int option" where
  "select_latest_version db artifactId =
     (case take 1 (rev (sort (map av_version
             (filter (\<lambda>r. av_artifactId r = artifactId) (artifactVersion db))))) of
        [] \<Rightarrow> None
      | v # _ \<Rightarrow> Some v)"

text \<open>\<^verbatim>\<open>update ArtifactVersion set isActive = false where artifactId = ? and isActive\<close>.\<close>

definition deactivate :: "uuid \<Rightarrow> ArtifactVersion \<Rightarrow> ArtifactVersion" where
  "deactivate artifactId r =
     (if av_artifactId r = artifactId \<and> av_isActive r = True
      then r\<lparr>av_isActive := False\<rparr> else r)"

record CreateVersionArgs =
  cv_artifactId :: uuid
  cv_title :: string
  cv_content :: string
  cv_commitMessage :: "string option"
  cv_authorId :: uuid
  cv_parentVersionId :: "uuid option"

text \<open>
  The statements run one after the other, outside any transaction: a statement that
  fails leaves the effects of the earlier ones in the database. Every failure inside the
  \<^verbatim>\<open>try\<close> is rethrown as the same error.
\<close>

definition createArtifactVersion ::
  "Env \<Rightarrow> CreateVersionArgs \<Rightarrow> Database \<Rightarrow> (ChatSDKError + ArtifactVersion) \<times> Database" where
  "createArtifactVersion env args db =
     (let failed = ChatSDKError ''bad_request:database'' ''Failed to create artifact version'';
          latestVersion = select_latest_version db (cv_artifactId args);
          nextVersion = (case latestVersion of None \<Rightarrow> 0
                         | Some v \<Rightarrow> (if v = 0 then 0 else v)) + 1;
          contentHash = generateContentHash env (cv_content args);
          commitHash = generateCommitHash env (cv_artifactId args) nextVersion (cv_content args);
          db1 = db\<lparr>artifactVersion := map (deactivate (cv_artifactId args)) (artifactVersion db)\<rparr>;
          newVersion = \<lparr>av_id = newVersionId env,
                        av_artifactId = cv_artifactId args,
                        av_version = nextVersion,
                        av_commitHash = commitHash,
                        av_parentVersionId = cv_parentVersionId args,
                        av_title = cv_title args,
                        av_content = cv_content args,
                        av_contentHash = contentHash,
                        av_commitMessage = cv_commitMessage args,
                        av_authorId = cv_authorId args,
                        av_createdAt = dbNow env,
                        av_isActive = True,
                        av_metadata = None\<rparr>
      in if \<not> version_insert_ok db1 newVersion then (Inl failed, db1)
         else
           (let db2 = db1\<lparr>artifactVersion := artifactVersion db1 @ [newVersion]\<rparr>;
                db3 = db2\<lparr>document :=
                        (case document db2 (cv_artifactId args) of
                           None \<Rightarrow> document db2
                         | Some d \<Rightarrow> (document db2)(cv_artifactId args \<mapsto>
                                       d\<lparr>doc_title := cv_title args,
                                         doc_content := cv_content args\<rparr>))\<rparr>
            in (case logArtifactChange env (cv_artifactId args) (Some (av_id newVersion))
                       Update (cv_authorId args)
                       (Some (Details (cv_commitMessage args) nextVersion)) db3 of
                  (Inl e, db4) \<Rightarrow> (Inl failed, db4)
                | (Inr u, db4) \<Rightarrow> (Inr newVersion, db4))))"

text \<open>
  \<^verbatim>\<open>select ... innerJoin user on authorId = user.id where artifactId = ?
  order by version desc\<close>: each version with its author's id and email.
\<close>

definition getArtifactVersionHistory ::
  "Database \<Rightarrow> uuid \<Rightarrow> (ArtifactVersion \<times> uuid \<times> string) list" where
  "getArtifactVersionHistory db artifactId =
     rev (sort_key (\<lambda>row. av_version (fst row))
       (List.map_filter
          (\<lambda>r. (case user db (av_authorId r) of None \<Rightarrow> None
                 | Some email \<Rightarrow> Some (r, av_authorId r, email)))
          (filter (\<lambda>r. av_artifactId r = artifactId) (artifactVersion db))))"

definition getArtifactVersionById :: "Database \<Rightarrow> uuid \<Rightarrow> ArtifactVersion option" where
  "getArtifactVersionById db versionId =
     (case take 1 (filter (\<lambda>r. av_id r = versionId) (artifactVersion db)) of
        [] \<Rightarrow> None
      | r # _ \<Rightarrow> Some r)"

record RestoreVersionArgs =
  rv_artifactId :: uuid
  rv_versionId :: uuid
  rv_userId :: uuid

text \<open>
  The \<^verbatim>\<open>not_found\<close> error is thrown inside the \<^verbatim>\<open>try\<close>, so the \<^verbatim>\<open>catch\<close> replaces it,
  like the error of \<^verbatim>\<open>createArtifactVersion\<close>, by the one error of this function.
\<close>

definition restoreArtifactVersion ::
  "Env \<Rightarrow> RestoreVersionArgs \<Rightarrow> Database \<Rightarrow> (ChatSDKError + ArtifactVersion) \<times> Database" where
  "restoreArtifactVersion env args db =
     (let failed = ChatSDKError ''bad_request:database'' ''Failed to restore artifact version''
      in (case filter (\<lambda>r. av_id r = rv_versionId args \<and> av_artifactId r = rv_artifactId args)
                 (artifactVersion db) of
            [] \<Rightarrow> (Inl failed, db)
          | versionToRestore # _ \<Rightarrow>
              (case createArtifactVersion env
                      \<lparr>cv_artifactId = rv_artifactId args,
                       cv_title = av_title versionToRestore,
                       cv_content = av_content versionToRestore,
                       cv_commitMessage =
                         Some (''Restored from version '' @ show_int (av_version versionToRestore)),
                       cv_authorId = rv_userId args,
                       cv_parentVersionId = None\<rparr> db of
                 (Inl e, db') \<Rightarrow> (Inl failed, db')
               | (Inr v, db') \<Rightarrow> (Inr v, db'))))"

record CreateBranchArgs =
  cb_artifactId :: uuid
  cb_name :: string
  cb_fromVersionId :: uuid

definition createArtifactBranch ::
  "Env \<Rightarrow> CreateBranchArgs \<Rightarrow> Database \<Rightarrow> (ChatSDKError + unit) \<times> Database" where
  "createArtifactBranch env args db =
     (let row = \<lparr>ab_id = newBranchId env,
                 ab_artifactId = cb_artifactId args,
                 ab_name = cb_name args,
                 ab_headVersionId = cb_fromVersionId args,
                 ab_isDefault = False,
                 ab_createdAt = dbNow env,
                 ab_updatedAt = dbNow env\<rparr>
      in if branch_insert_ok db row
         then (Inr (), db\<lparr>artifactBranch := artifactBranch db @ [row]\<rparr>)
         else (Inl (ChatSDKError ''bad_request:database'' ''Failed to create artifact branch''),
               db))"

text \<open>
  A caller that makes the calls of a list one after the other, each on the database the
  previous one left; the result is \<^const>\<open>None\<close> unless every call succeeds.
\<close>

fun create_versions ::
  "(Env \<times> CreateVersionArgs) list \<Rightarrow> Database \<Rightarrow> (ArtifactVersion list \<times> Database) option" where
  "create_versions [] db = Some ([], db)"
| "create_versions (c # cs) db =
     (case createArtifactVersion (fst c) (snd c) db of
        (Inl e, db') \<Rightarrow> None
      | (Inr v, db') \<Rightarrow>
          (case create_versions cs db' of
             None \<Rightarrow> None
           | Some (vs, db'') \<Rightarrow> Some (v # vs, db'')))"

text \<open>The version numbers an artifact has, in table order.\<close>

definition versions_of :: "Database \<Rightarrow> uuid \<Rightarrow> int list" where
  "versions_of db artifactId =
     map av_version (filter (\<lambda>r. av_artifactId r = artifactId) (artifactVersion db))"

section \<open>A scenario\<close>

text \<open>
  One document \<^verbatim>\<open>d1\<close> of one user \<^verbatim>\<open>u1\<close>. The \<open>k\<close>-th call gets the clock value \<open>k\<close>
  and the generated ids \<^verbatim>\<open>vk\<close>, \<^verbatim>\<open>lk\<close>, \<^verbatim>\<open>bk\<close>; the identity stands in for the digest.
\<close>

definition scenario_db :: Database where
  "scenario_db =
     \<lparr>document = [''d1'' \<mapsto> \<lparr>doc_title = ''Doc'', doc_content = '''', doc_userId = ''u1''\<rparr>],
      user = [''u1'' \<mapsto> ''u1@example.com''],
      artifactVersion = [], artifactBranch = [], artifactChangeLog = []\<rparr>"

definition scenario_env :: "nat \<Rightarrow> Env" where
  "scenario_env k =
     \<lparr>sha256 = (\<lambda>s. s), dateNow = k, newVersionId = ''v'' @ show_nat k,
      newLogId = ''l'' @ show_nat k, newBranchId = ''b'' @ show_nat k, dbNow = k\<rparr>"

definition scenario_create :: "string \<Rightarrow> CreateVersionArgs" where
  "scenario_create c =
     \<lparr>cv_artifactId = ''d1'', cv_title = ''Doc'', cv_content = c, cv_commitMessage = None,
      cv_authorId = ''u1'', cv_parentVersionId = None\<rparr>"

definition scenario_calls :: "(Env \<times> CreateVersionArgs) list" where
  "scenario_calls = [(scenario_env 1, scenario_create ''A''), (scenario_env 2, scenario_create ''B'')]"


definition scenario_v1 :: ArtifactVersion where
  "scenario_v1 =
     \<lparr>av_id = ''v1'', av_artifactId = ''d1'', av_version = 1, av_commitHash = ''d1:1:A:1'',
      av_parentVersionId = None, av_title = ''Doc'', av_content = ''A'', av_contentHash = ''A'',
      av_commitMessage = None, av_authorId = ''u1'', av_createdAt = 1, av_isActive = True,
      av_metadata = None\<rparr>"

definition scenario_v2 :: ArtifactVersion where
  "scenario_v2 =
     \<lparr>av_id = ''v2'', av_artifactId = ''d1'', av_version = 2, av_commitHash = ''d1:2:B:2'',
      av_parentVersionId = None, av_title = ''Doc'', av_content = ''B'', av_contentHash = ''B'',
      av_commitMessage = None, av_authorId = ''u1'', av_createdAt = 2, av_isActive = True,
      av_metadata = None\<rparr>"

definition scenario_db2 :: Database where
  "scenario_db2 = snd (the (create_versions scenario_calls scenario_db))"

definition scenario_restore :: RestoreVersionArgs where
  "scenario_restore = \<lparr>rv_artifactId = ''d1'', rv_versionId = ''v1'', rv_userId = ''u1''\<rparr>"

definition scenario_restore_unknown :: RestoreVersionArgs where
  "scenario_restore_unknown = \<lparr>rv_artifactId = ''d1'', rv_versionId = ''v1'', rv_userId = ''u9''\<rparr>"

definition scenario_branch_db :: Database where
  "scenario_branch_db =
     \<lparr>document = [''d1'' \<mapsto> \<lparr>doc_title = ''Doc'', doc_content = ''A'', doc_userId = ''u1''\<rparr>],
      user = [''u1'' \<mapsto> ''u1@example.com''],
      artifactVersion = [scenario_v1],
      artifactBranch =
        [\<lparr>ab_id = ''b0'', ab_artifactId = ''d1'', ab_name = ''main'', ab_headVersionId = ''v1'',
          ab_isDefault = True, ab_createdAt = 1, ab_updatedAt = 1\<rparr>],
      artifactChangeLog = []\<rparr>"

definition scenario_branch :: CreateBranchArgs where
  "scenario_branch = \<lparr>cb_artifactId = ''d1'', cb_name = ''main'', cb_fromVersionId = ''v1''\<rparr>"

section \<open>Facts about lines\<close>

text \<open>The loop equations are unfolded one iteration at a time, by hand.\<close>

declare diff_loop.simps [simp del]
declare merge_loop.simps [simp del]
declare matching_loop.simps [simp del]
declare show_nat.simps [simp del]

lemma split_nl_nonempty: "split_nl s \<noteq> []"
  by (induction s) (auto split: list.splits)

lemma length_split_nl_pos: "0 < length (split_nl s)"
  using split_nl_nonempty [of s] by simp


section \<open>The diff loop in closed form\<close>

lemma diff_step_add: "length old \<le> i \<Longrightarrow> i < length new \<Longrightarrow>
  diff_step old new i (A, D, M) = (A @ [new ! i], D, M)"
  by (simp add: diff_step_def nth_opt_def)

lemma diff_step_del: "length new \<le> i \<Longrightarrow> i < length old \<Longrightarrow>
  diff_step old new i (A, D, M) = (A, D @ [old ! i], M)"
  by (simp add: diff_step_def nth_opt_def)

lemma diff_step_both: "i < length old \<Longrightarrow> i < length new \<Longrightarrow>
  diff_step old new i (A, D, M) =
    (A, D, M @ map (\<lambda>j. \<lparr>mod_line = j + 1, mod_old = old ! j, mod_new = new ! j\<rparr>)
                 (filter (\<lambda>j. old ! j \<noteq> new ! j) [i]))"
  by (simp add: diff_step_def nth_opt_def)

lemma diff_loop_eq:
  "maxLines = max (length old) (length new) \<Longrightarrow>
   diff_loop old new maxLines i (A, D, M) =
     (A @ drop (max i (length old)) new,
      D @ drop (max i (length new)) old,
      M @ map (\<lambda>j. \<lparr>mod_line = j + 1, mod_old = old ! j, mod_new = new ! j\<rparr>)
            (filter (\<lambda>j. old ! j \<noteq> new ! j) [i..<min (length old) (length new)]))"
proof (induction old new maxLines i "(A, D, M)" arbitrary: A D M rule: diff_loop.induct)
  case (1 old new maxLines i)
  note unfold = diff_loop.simps [of old new _ i]
  show ?case
  proof (cases "i < maxLines")
    case False
    with "1.prems" show ?thesis by (simp add: unfold)
  next
    case True
    consider (add) "length old \<le> i" "i < length new"
      | (del) "length new \<le> i" "i < length old"
      | (both) "i < length old" "i < length new"
      using True "1.prems" by linarith
    then show ?thesis
    proof cases
      case add
      have d: "drop i new = new ! i # drop (Suc i) new"
        using add by (simp add: Cons_nth_drop_Suc)
      have "diff_loop old new maxLines i (A, D, M) =
            diff_loop old new maxLines (Suc i) (A @ [new ! i], D, M)"
        using True add by (simp add: unfold diff_step_add)
      also have "\<dots> = (A @ [new ! i] @ drop (max (Suc i) (length old)) new,
          D @ drop (max (Suc i) (length new)) old,
          M @ map (\<lambda>j. \<lparr>mod_line = j + 1, mod_old = old ! j, mod_new = new ! j\<rparr>)
            (filter (\<lambda>j. old ! j \<noteq> new ! j) [Suc i..<min (length old) (length new)]))"
        using "1.hyps" [OF True diff_step_add [OF add] "1.prems"] by simp
      finally show ?thesis using add d by (simp add: max_def min_def)
    next
      case del
      have d: "drop i old = old ! i # drop (Suc i) old"
        using del by (simp add: Cons_nth_drop_Suc)
      have "diff_loop old new maxLines i (A, D, M) =
            diff_loop old new maxLines (Suc i) (A, D @ [old ! i], M)"
        using True del by (simp add: unfold diff_step_del)
      also have "\<dots> = (A @ drop (max (Suc i) (length old)) new,
          D @ [old ! i] @ drop (max (Suc i) (length new)) old,
          M @ map (\<lambda>j. \<lparr>mod_line = j + 1, mod_old = old ! j, mod_new = new ! j\<rparr>)
            (filter (\<lambda>j. old ! j \<noteq> new ! j) [Suc i..<min (length old) (length new)]))"
        using "1.hyps" [OF True diff_step_del [OF del] "1.prems"] by simp
      finally show ?thesis using del d by (simp add: max_def min_def)
    next
      case both
      let ?m = "map (\<lambda>j. \<lparr>mod_line = j + 1, mod_old = old ! j, mod_new = new ! j\<rparr>)
                 (filter (\<lambda>j. old ! j \<noteq> new ! j) [i])"
      have u: "[i..<min (length old) (length new)] = i # [Suc i..<min (length old) (length new)]"
        using both by (simp add: upt_conv_Cons)
      have "diff_loop old new maxLines i (A, D, M) =
            diff_loop old new maxLines (Suc i) (A, D, M @ ?m)"
        using True both by (simp add: unfold diff_step_both del: filter.simps)
      also have "\<dots> = (A @ drop (max (Suc i) (length old)) new,
          D @ drop (max (Suc i) (length new)) old,
          (M @ ?m) @ map (\<lambda>j. \<lparr>mod_line = j + 1, mod_old = old ! j, mod_new = new ! j\<rparr>)
            (filter (\<lambda>j. old ! j \<noteq> new ! j) [Suc i..<min (length old) (length new)]))"
        using "1.hyps" [OF True diff_step_both [OF both] "1.prems"] by simp
      finally show ?thesis using both u by (simp add: max_def min_def)
    qed
  qed
qed

lemma generateDiff_additions:
  "additions (generateDiff old new) = drop (length (split_nl old)) (split_nl new)"
  by (simp add: generateDiff_def Let_def diff_loop_eq del: upt.simps)

lemma generateDiff_deletions:
  "deletions (generateDiff old new) = drop (length (split_nl new)) (split_nl old)"
  by (simp add: generateDiff_def Let_def diff_loop_eq del: upt.simps)

lemma generateDiff_modifications:
  "modifications (generateDiff old new) =
     map (\<lambda>j. \<lparr>mod_line = j + 1, mod_old = split_nl old ! j, mod_new = split_nl new ! j\<rparr>)
       (filter (\<lambda>j. split_nl old ! j \<noteq> split_nl new ! j)
          [0..<min (length (split_nl old)) (length (split_nl new))])"
  by (simp add: generateDiff_def Let_def diff_loop_eq del: upt.simps)

lemma drop_length_Cons: "drop (length xs) (x # xs) = [last (x # xs)]"
  by (induction xs arbitrary: x) simp_all

section \<open>The merge loop on identical sides\<close>

lemma split_nl_prepend_line:
  "newline \<notin> set x \<Longrightarrow> split_nl (x @ newline # c) = x # split_nl c"
  by (induction x) auto

lemma join_nl_append_empty:
  "ls \<noteq> [] \<Longrightarrow> join_nl (ls @ replicate k []) = join_nl ls @ replicate k newline"
proof (induction ls rule: join_nl.induct)
  case 1
  then show ?case by simp
next
  case (2 l)
  show ?case
  proof (induction k)
    case 0
    show ?case by simp
  next
    case (Suc k)
    have "join_nl ([l] @ replicate (Suc k) []) = l @ newline # join_nl ([] # replicate k [])"
      by simp
    also have "join_nl ([] # replicate k []) = replicate k newline"
      by (induction k) (simp_all add: replicate_append_same)
    finally show ?case by (simp add: replicate_append_same)
  qed
next
  case (3 l l' ls)
  then show ?case by simp
qed

lemma join_nl_split_nl: "join_nl (split_nl s) = s"
proof (induction s)
  case Nil
  show ?case by simp
next
  case (Cons c cs)
  obtain l ls where sp: "split_nl cs = l # ls"
    using split_nl_nonempty [of cs] by (cases "split_nl cs") auto
  show ?case
  proof (cases "c = newline")
    case True
    then show ?thesis using Cons sp by simp
  next
    case False
    then show ?thesis using Cons sp by (cases ls) auto
  qed
qed

lemma merge_step_same:
  "merge_step b c c i (C, M) = (C, M @ [or_empty (nth_opt c i)])"
  by (simp add: merge_step_def)

lemma merge_loop_same:
  "inc = c \<Longrightarrow> merge_loop b c inc maxLines i (C, M) =
     (C, M @ map (\<lambda>j. or_empty (nth_opt c j)) [i..<maxLines])"
proof (induction b c inc maxLines i "(C, M)" arbitrary: C M rule: merge_loop.induct)
  case (1 b c inc maxLines i)
  note [simp] = \<open>inc = c\<close>
  show ?case
  proof (cases "i < maxLines")
    case False
    then show ?thesis by (simp add: merge_loop.simps [of _ _ _ _ i])
  next
    case True
    have "merge_loop b c c maxLines i (C, M) =
          merge_loop b c c maxLines (Suc i) (C, M @ [or_empty (nth_opt c i)])"
      using True by (simp add: merge_loop.simps [of _ _ _ _ i] merge_step_same)
    also have "\<dots> = (C, (M @ [or_empty (nth_opt c i)]) @
                        map (\<lambda>j. or_empty (nth_opt c j)) [Suc i..<maxLines])"
      using "1.hyps" [OF True _ \<open>inc = c\<close>] by (simp add: merge_step_same)
    finally show ?thesis using True by (simp add: upt_conv_Cons)
  qed
qed

lemma or_empty_lines:
  "length c \<le> n \<Longrightarrow>
   map (\<lambda>j. or_empty (nth_opt c j)) [0..<n] = c @ replicate (n - length c) []"
proof -
  assume le: "length c \<le> n"
  have split: "[0..<n] = [0..<length c] @ [length c..<n]"
    using le by (metis le_add_diff_inverse upt_add_eq_append zero_le)
  have a: "map (\<lambda>j. or_empty (nth_opt c j)) [0..<length c] = c"
    by (rule nth_equalityI) (simp_all add: or_empty_def nth_opt_def)
  have b: "map (\<lambda>j. or_empty (nth_opt c j)) [length c..<n] = replicate (n - length c) []"
    by (rule nth_equalityI) (simp_all add: or_empty_def nth_opt_def)
  show ?thesis by (subst split) (simp add: a b del: upt.simps)
qed

lemma mergeContent_same:
  "mergeContent b c c =
     \<lparr>success = True,
      merged_content =
        Some (c @ replicate (length (split_nl b) - length (split_nl c)) newline),
      conflicts = None\<rparr>"
proof -
  let ?n = "max (max (length (split_nl b)) (length (split_nl c))) (length (split_nl c))"
  have n: "?n - length (split_nl c) = length (split_nl b) - length (split_nl c)"
    by simp
  have "join_nl (map (\<lambda>j. or_empty (nth_opt (split_nl c) j)) [0..<?n]) =
        join_nl (split_nl c @ replicate (?n - length (split_nl c)) [])"
    by (subst or_empty_lines) simp_all
  also have "\<dots> = c @ replicate (length (split_nl b) - length (split_nl c)) newline"
    unfolding n by (simp add: join_nl_append_empty split_nl_nonempty join_nl_split_nl)
  finally show ?thesis
    by (simp add: mergeContent_def Let_def merge_loop_same del: upt.simps)
qed



section \<open>The similarity loop in closed form\<close>

lemma matching_loop_eq:
  "minLines \<le> length l1 \<Longrightarrow> minLines \<le> length l2 \<Longrightarrow>
   matching_loop l1 l2 minLines i k =
     k + length (filter (\<lambda>j. l1 ! j = l2 ! j) [i..<minLines])"
proof (induction l1 l2 minLines i k rule: matching_loop.induct)
  case (1 l1 l2 minLines i k)
  show ?case
  proof (cases "i < minLines")
    case False
    then show ?thesis by (simp add: matching_loop.simps [of _ _ _ i])
  next
    case True
    have eq: "(nth_opt l1 i = nth_opt l2 i) = (l1 ! i = l2 ! i)"
      using True "1.prems" by (simp add: nth_opt_def)
    show ?thesis
      using True "1.IH" [OF True "1.prems"] eq
      by (simp add: upt_conv_Cons matching_loop.simps [of _ _ _ i])
  qed
qed

lemma matching_positions_card:
  "length (filter (\<lambda>j. l1 ! j = l2 ! j) [0..<min (length l1) (length l2)]) =
   card {i. i < length l1 \<and> i < length l2 \<and> l1 ! i = l2 ! i}"
proof -
  have "{i. i < length l1 \<and> i < length l2 \<and> l1 ! i = l2 ! i} =
        set (filter (\<lambda>j. l1 ! j = l2 ! j) [0..<min (length l1) (length l2)])"
    by auto
  then show ?thesis
    by (simp only: distinct_card distinct_filter distinct_upt)
qed

lemma calculateSimilarity_eq:
  "calculateSimilarity a b =
     real (length (filter (\<lambda>j. split_nl a ! j = split_nl b ! j)
                     [0..<min (length (split_nl a)) (length (split_nl b))])) /
     real (max (length (split_nl a)) (length (split_nl b)))"
  using length_split_nl_pos [of a]
  by (simp add: calculateSimilarity_def Let_def matching_loop_eq del: upt.simps)

lemma calculateSimilarity_commute: "calculateSimilarity a b = calculateSimilarity b a"
proof -
  have "(\<lambda>j. split_nl a ! j = split_nl b ! j) = (\<lambda>j. split_nl b ! j = split_nl a ! j)"
    by auto
  then show ?thesis
    by (simp add: calculateSimilarity_eq min.commute max.commute del: upt.simps)
qed

lemma calculateSimilarity_same: "calculateSimilarity a a = 1"
  using length_split_nl_pos [of a]
  by (simp add: calculateSimilarity_eq del: upt.simps)

lemma calculateSimilarity_range: "0 \<le> calculateSimilarity a b \<and> calculateSimilarity a b \<le> 1"
proof -
  let ?m = "length (filter (\<lambda>j. split_nl a ! j = split_nl b ! j)
                     [0..<min (length (split_nl a)) (length (split_nl b))])"
  let ?t = "max (length (split_nl a)) (length (split_nl b))"
  have "?m \<le> length [0..<min (length (split_nl a)) (length (split_nl b))]"
    by (rule length_filter_le)
  then have "?m \<le> min (length (split_nl a)) (length (split_nl b))"
    by (simp only: length_upt diff_zero)
  then have le: "?m \<le> ?t" by arith
  have pos: "0 < ?t" using length_split_nl_pos [of a] by (simp add: less_max_iff_disj)
  have "real ?m / real ?t \<le> 1"
    using le pos by (simp add: divide_le_eq_1 del: upt.simps)
  then show ?thesis
    by (simp add: calculateSimilarity_eq del: upt.simps)
qed



section \<open>Properties of diff, merge and similarity\<close>

text \<open>
  Claim C2, as the code has it: merging identical sides always succeeds with no
  conflicts, for every base. The loop runs to the longest of the three line arrays and
  pushes \<^verbatim>\<open>currentLine || ''\<close> at indices past the end of the sides, so the content
  is \<open>c\<close> followed by one line feed for each line by which the base is longer than
  \<open>c\<close>; it is \<open>c\<close> itself when the base has no more lines than \<open>c\<close>.
\<close>

theorem mergeContent_identical_sides:
  "mergeContent b c c =
     \<lparr>success = True,
      merged_content =
        Some (c @ replicate (length (split_nl b) - length (split_nl c)) newline),
      conflicts = None\<rparr>"
  by (rule mergeContent_same)

text \<open>
  Claim C2 as stated fails: with base \<^verbatim>\<open>"x\ny"\<close> and both sides \<^verbatim>\<open>"z"\<close> the merged
  content is \<^verbatim>\<open>"z\n"\<close>, not \<^verbatim>\<open>"z"\<close>.
\<close>

theorem mergeContent_identical_sides_counterexample:
  "\<not> (success (mergeContent ''x\<newline>y'' ''z'' ''z'') = True
      \<and> conflicts (mergeContent ''x\<newline>y'' ''z'' ''z'') = None
      \<and> merged_content (mergeContent ''x\<newline>y'' ''z'' ''z'') = Some ''z'')"
  by (simp add: mergeContent_same newline_def)

text \<open>
  Claim C4, as the code has it: the diff compares the lines at equal indices. When a
  whole line \<open>x\<close> is put in front of a content \<open>c\<close>, the one addition reported is the
  last line of \<open>c\<close> (the line pushed past the old end), there is no deletion, and
  every index at which the shifted line differs from the line that was there before is
  reported as a modification.
\<close>

theorem generateDiff_prepend_line:
  assumes "newline \<notin> set x"
  shows "additions (generateDiff c (x @ newline # c)) = [last (split_nl c)]
       \<and> deletions (generateDiff c (x @ newline # c)) = []
       \<and> modifications (generateDiff c (x @ newline # c)) =
           map (\<lambda>j. \<lparr>mod_line = j + 1, mod_old = split_nl c ! j,
                      mod_new = (x # split_nl c) ! j\<rparr>)
             (filter (\<lambda>j. split_nl c ! j \<noteq> (x # split_nl c) ! j)
                [0..<length (split_nl c)])"
  using assms split_nl_nonempty [of c]
  by (simp add: generateDiff_additions generateDiff_deletions generateDiff_modifications
      split_nl_prepend_line drop_length_Cons del: upt.simps)

text \<open>
  Claim C4, the amended statement at \<^verbatim>\<open>"a\nb"\<close> with the line \<^verbatim>\<open>"x"\<close> put in front.
\<close>

theorem generateDiff_prepend_line_witness:
  "newline \<notin> set ''x''
   \<and> additions (generateDiff ''a\<newline>b'' ''x\<newline>a\<newline>b'') = [''b'']
   \<and> deletions (generateDiff ''a\<newline>b'' ''x\<newline>a\<newline>b'') = []
   \<and> modifications (generateDiff ''a\<newline>b'' ''x\<newline>a\<newline>b'') =
       [\<lparr>mod_line = 1, mod_old = ''a'', mod_new = ''x''\<rparr>,
        \<lparr>mod_line = 2, mod_old = ''b'', mod_new = ''a''\<rparr>]"
proof -
  have h: "newline \<notin> set ''x''" by (simp add: newline_def)
  have s: "split_nl ''a\<newline>b'' = [''a'', ''b'']" by (simp add: newline_def)
  show ?thesis
    using h generateDiff_prepend_line [OF h, of "''a\<newline>b''"]
    by (simp add: s newline_def)
qed

text \<open>
  Claim C4 as stated fails: putting \<^verbatim>\<open>"x"\<close> in front of \<^verbatim>\<open>"a\nb"\<close> does not report
  \<^verbatim>\<open>"x"\<close> as the addition with no modification.
\<close>

theorem generateDiff_prepend_line_counterexample:
  "\<not> (additions (generateDiff ''a\<newline>b'' ''x\<newline>a\<newline>b'') = [''x'']
      \<and> modifications (generateDiff ''a\<newline>b'' ''x\<newline>a\<newline>b'') = [])"
  by (simp add: generateDiff_additions newline_def)

text \<open>
  Claim C5, as the code has it: the diff of two empty strings is empty. The empty string
  splits into one empty line, so the diff of \<^verbatim>\<open>"a\nb"\<close> against the empty string has
  no addition, the one deletion \<^verbatim>\<open>"b"\<close> and one modification, of line 1 from \<^verbatim>\<open>"a"\<close>
  to the empty line.
\<close>

theorem generateDiff_empty_cases:
  "generateDiff '''' '''' =
     \<lparr>additions = [], deletions = [], modifications = [],
      stats = \<lparr>addedLines = 0, deletedLines = 0, modifiedLines = 0\<rparr>\<rparr>
   \<and> generateDiff ''a\<newline>b'' '''' =
     \<lparr>additions = [], deletions = [''b''],
      modifications = [\<lparr>mod_line = 1, mod_old = ''a'', mod_new = ''''\<rparr>],
      stats = \<lparr>addedLines = 0, deletedLines = 1, modifiedLines = 1\<rparr>\<rparr>"
  by (simp add: generateDiff_def Let_def diff_loop_eq newline_def)

text \<open>
  Claim C5 as stated fails: the diff of \<^verbatim>\<open>"a\nb"\<close> against the empty string does not
  have two deletions.
\<close>

theorem generateDiff_empty_cases_counterexample:
  "\<not> (additions (generateDiff '''' '''') = []
      \<and> deletions (generateDiff '''' '''') = []
      \<and> modifications (generateDiff '''' '''') = []
      \<and> length (deletions (generateDiff ''a\<newline>b'' '''')) = 2
      \<and> length (additions (generateDiff ''a\<newline>b'' '''')) = 0)"
  by (simp add: generateDiff_deletions newline_def)

text \<open>
  Claim C9: the additions are the lines of the new content past the old line count, the
  deletions are the lines of the old content past the new line count, their numbers are
  the positive parts of the differences of the line counts, and one of the two lists is
  always empty.
\<close>

theorem generateDiff_additions_deletions_trailing:
  "additions (generateDiff old new) = drop (length (split_nl old)) (split_nl new)
   \<and> deletions (generateDiff old new) = drop (length (split_nl new)) (split_nl old)
   \<and> int (length (additions (generateDiff old new))) =
       max 0 (int (length (split_nl new)) - int (length (split_nl old)))
   \<and> int (length (deletions (generateDiff old new))) =
       max 0 (int (length (split_nl old)) - int (length (split_nl new)))
   \<and> (additions (generateDiff old new) = [] \<or> deletions (generateDiff old new) = [])"
  by (auto simp add: generateDiff_additions generateDiff_deletions)

text \<open>
  Claim C8: the similarity lies between 0 and 1 and is the number of indices at which
  both contents have the same line, divided by the larger line count; on empty contents
  it is 1.
\<close>

theorem calculateSimilarity_matching_fraction:
  "0 \<le> calculateSimilarity a b
   \<and> calculateSimilarity a b \<le> 1
   \<and> calculateSimilarity a b =
       real (card {i. i < length (split_nl a) \<and> i < length (split_nl b)
                     \<and> split_nl a ! i = split_nl b ! i}) /
       real (max (length (split_nl a)) (length (split_nl b)))
   \<and> calculateSimilarity '''' '''' = 1"
  using calculateSimilarity_range [of a b]
  by (simp add: calculateSimilarity_same)
     (simp only: calculateSimilarity_eq matching_positions_card)

text \<open>
  Claim C10: the similarity is symmetric, and every content has similarity 1 with itself.
\<close>

theorem calculateSimilarity_symmetric_reflexive:
  "calculateSimilarity a b = calculateSimilarity b a \<and> calculateSimilarity a a = 1"
  using calculateSimilarity_commute [of a b] calculateSimilarity_same [of a] by simp



section \<open>Facts about the version store\<close>

lemma sorted_last_Max:
  fixes ys :: "int list"
  shows "sorted ys \<Longrightarrow> ys \<noteq> [] \<Longrightarrow> last ys = Max (set ys)"
proof (induction ys)
  case Nil
  then show ?case by simp
next
  case (Cons y ys)
  show ?case
  proof (cases "ys = []")
    case True
    then show ?thesis by simp
  next
    case False
    have le: "y \<le> Max (set ys)"
      using Cons.prems(1) False by (simp add: Max_ge_iff) (meson last_in_set)
    show ?thesis
      using Cons False le by (simp add: max_absorb2)
  qed
qed

lemma select_latest_version_eq:
  "select_latest_version db a =
     (if versions_of db a = [] then None else Some (Max (set (versions_of db a))))"
proof (cases "versions_of db a = []")
  case True
  then show ?thesis by (simp add: select_latest_version_def versions_of_def)
next
  case False
  let ?xs = "versions_of db a"
  have ne: "sort ?xs \<noteq> []" using False by (metis length_sort length_0_conv)
  then obtain zs where r: "rev (sort ?xs) = last (sort ?xs) # zs"
    by (metis rev.simps(2) rev_rev_ident rev_append append_butlast_last_id append_Cons append_Nil)
  have "last (sort ?xs) = Max (set ?xs)"
    using sorted_last_Max [of "sort ?xs"] ne by simp
  with r False show ?thesis
    by (simp add: select_latest_version_def versions_of_def [symmetric])
qed

lemma deactivate_artifactId [simp]: "av_artifactId (deactivate a r) = av_artifactId r"
  by (simp add: deactivate_def)

lemma deactivate_version [simp]: "av_version (deactivate a r) = av_version r"
  by (simp add: deactivate_def)

lemma deactivate_authorId [simp]: "av_authorId (deactivate a r) = av_authorId r"
  by (simp add: deactivate_def)

lemma deactivate_id [simp]: "av_id (deactivate a r) = av_id r"
  by (simp add: deactivate_def)

lemma deactivate_inactive: "av_artifactId r = a \<Longrightarrow> \<not> av_isActive (deactivate a r)"
  by (simp add: deactivate_def)

lemma no_active_after_deactivate:
  "filter (\<lambda>r. av_artifactId r = a \<and> av_isActive r) (map (deactivate a) rows) = []"
  by (induction rows) (simp_all add: deactivate_def)

lemma createArtifactVersion_success:
  assumes "createArtifactVersion env args db = (Inr v, db')"
  shows "artifactVersion db' =
           map (deactivate (cv_artifactId args)) (artifactVersion db) @ [v]"
    and "av_artifactId v = cv_artifactId args"
    and "av_isActive v"
    and "av_version v =
           (if versions_of db (cv_artifactId args) = [] then 1
            else Max (set (versions_of db (cv_artifactId args))) + 1)"
    and "av_title v = cv_title args"
    and "av_content v = cv_content args"
    and "av_commitMessage v = cv_commitMessage args"
    and "av_authorId v = cv_authorId args"
    and "user db' = user db"
    and "user db (cv_authorId args) \<noteq> None"
  using assms
  by (auto simp add: createArtifactVersion_def Let_def logArtifactChange_def
      select_latest_version_eq version_insert_ok_def
      split: if_splits prod.splits sum.splits)

lemma createArtifactVersion_rows:
  "\<exists>extra. artifactVersion (snd (createArtifactVersion env args db)) =
     map (deactivate (cv_artifactId args)) (artifactVersion db) @ extra"
  by (simp add: createArtifactVersion_def Let_def logArtifactChange_def
      split: if_splits prod.splits sum.splits)

lemma createArtifactVersion_fresh_id:
  assumes "createArtifactVersion env args db = (Inr v, db')"
  shows "av_id v \<notin> set (map av_id (artifactVersion db))"
  using assms
  by (auto simp add: createArtifactVersion_def Let_def logArtifactChange_def
      version_insert_ok_def image_iff split: if_splits prod.splits sum.splits)

lemma active_after_create:
  assumes "createArtifactVersion env args db = (Inr v, db')"
  shows "filter (\<lambda>r. av_artifactId r = cv_artifactId args \<and> av_isActive r)
           (artifactVersion db') = [v]"
  using createArtifactVersion_success(1-3) [OF assms]
  by (simp add: no_active_after_deactivate)

lemma create_versions_last:
  "create_versions cs db = Some (vs, db') \<Longrightarrow> cs \<noteq> [] \<Longrightarrow>
   vs \<noteq> [] \<and> (\<exists>dbm. createArtifactVersion (fst (last cs)) (snd (last cs)) dbm =
                        (Inr (last vs), db'))"
proof (induction cs arbitrary: db vs)
  case Nil
  then show ?case by simp
next
  case (Cons c cs)
  from Cons.prems(1) obtain v db1 vs' where
    first: "createArtifactVersion (fst c) (snd c) db = (Inr v, db1)" and
    rest: "create_versions cs db1 = Some (vs', db')" and
    vs: "vs = v # vs'"
    by (auto split: prod.splits sum.splits option.splits)
  show ?case
  proof (cases "cs = []")
    case True
    with first rest vs show ?thesis by auto
  next
    case False
    from Cons.IH [OF rest False] vs False show ?thesis by auto
  qed
qed

lemma versions_of_after_create:
  assumes "createArtifactVersion env args db = (Inr v, db')"
  shows "versions_of db' b =
           (if b = cv_artifactId args then versions_of db b @ [av_version v]
            else versions_of db b)"
  using createArtifactVersion_success(1,2) [OF assms]
  by (simp add: versions_of_def filter_map comp_def)

lemma versions_of_snd_create:
  "\<exists>extra. versions_of (snd (createArtifactVersion env args db)) b = versions_of db b @ extra"
proof -
  obtain extra where
    "artifactVersion (snd (createArtifactVersion env args db)) =
       map (deactivate (cv_artifactId args)) (artifactVersion db) @ extra"
    using createArtifactVersion_rows by blast
  then show ?thesis
    by (simp add: versions_of_def filter_map comp_def)
qed

lemma next_after_create:
  assumes "createArtifactVersion env args db = (Inr v, db')"
  shows "Max (set (versions_of db' (cv_artifactId args))) = av_version v"
    and "versions_of db' (cv_artifactId args) \<noteq> []"
proof -
  let ?a = "cv_artifactId args"
  have v: "av_version v = (if versions_of db ?a = [] then 1
                           else Max (set (versions_of db ?a)) + 1)"
    by (rule createArtifactVersion_success(4) [OF assms])
  have eq: "versions_of db' ?a = versions_of db ?a @ [av_version v]"
    using versions_of_after_create [OF assms, of ?a] by simp
  show "versions_of db' ?a \<noteq> []" using eq by simp
  show "Max (set (versions_of db' ?a)) = av_version v"
  proof (cases "versions_of db ?a = []")
    case True
    then show ?thesis using eq by simp
  next
    case False
    then show ?thesis using eq v by (simp add: max_def)
  qed
qed

lemma new_number_unused:
  assumes "createArtifactVersion env args db = (Inr v, db')"
  shows "av_version v \<notin> set (versions_of db (cv_artifactId args))"
proof
  let ?a = "cv_artifactId args"
  assume mem: "av_version v \<in> set (versions_of db ?a)"
  then have ne: "versions_of db ?a \<noteq> []" by auto
  have "av_version v \<le> Max (set (versions_of db ?a))"
    using mem by simp
  moreover have "av_version v = Max (set (versions_of db ?a)) + 1"
    using createArtifactVersion_success(4) [OF assms] ne by simp
  ultimately show False by simp
qed

lemma create_versions_consecutive:
  "create_versions cs db = Some (vs, db') \<Longrightarrow>
   \<forall>c\<in>set cs. cv_artifactId (snd c) = a \<Longrightarrow>
   map av_version vs =
     map (\<lambda>k. (if versions_of db a = [] then 1 else Max (set (versions_of db a)) + 1) + int k)
       [0..<length cs]"
proof (induction cs arbitrary: db vs)
  case Nil
  then show ?case by simp
next
  case (Cons c cs)
  from Cons.prems(1) obtain v db1 vs' where
    first: "createArtifactVersion (fst c) (snd c) db = (Inr v, db1)" and
    rest: "create_versions cs db1 = Some (vs', db')" and
    vs: "vs = v # vs'"
    by (auto split: prod.splits sum.splits option.splits)
  have a: "cv_artifactId (snd c) = a" and all: "\<forall>c\<in>set cs. cv_artifactId (snd c) = a"
    using Cons.prems(2) by simp_all
  let ?n = "if versions_of db a = [] then 1 else Max (set (versions_of db a)) + 1"
  have v: "av_version v = ?n"
    using createArtifactVersion_success(4) [OF first] a by simp
  have n1: "(if versions_of db1 a = [] then 1 else Max (set (versions_of db1 a)) + 1) = ?n + 1"
    using next_after_create [OF first] a v by simp
  have "map av_version vs' = map (\<lambda>k. ?n + 1 + int k) [0..<length cs]"
    using Cons.IH [OF rest all] unfolding n1 .
  also have "\<dots> = map (\<lambda>k. ?n + int k) (map Suc [0..<length cs])"
    by (simp add: comp_def)
  finally have tl: "map av_version vs' = map (\<lambda>k. ?n + int k) [Suc 0..<Suc (length cs)]"
    by (simp only: map_Suc_upt)
  have "[0..<Suc (length cs)] = 0 # [Suc 0..<Suc (length cs)]"
    by (rule upt_conv_Cons) simp
  then have "[0..<length (c # cs)] = 0 # [Suc 0..<Suc (length cs)]"
    by (simp only: list.size(4) One_nat_def add_Suc_right add_0_right)
  then show ?case using vs v tl by (simp del: upt.simps)
qed

lemma history_length:
  "length (getArtifactVersionHistory db a) =
   length (filter (\<lambda>r. av_artifactId r = a \<and> user db (av_authorId r) \<noteq> None)
             (artifactVersion db))"
proof -
  have p: "\<And>r. ((case user db (av_authorId r) of None \<Rightarrow> None
               | Some email \<Rightarrow> Some (r, av_authorId r, email)) \<noteq> None) =
        (user db (av_authorId r) \<noteq> None)"
    by (simp split: option.splits del: not_None_eq)
  show ?thesis
    by (simp add: getArtifactVersionHistory_def map_filter_def p conj_commute
        del: not_None_eq)
qed

lemma history_length_after_create:
  assumes "createArtifactVersion env args db = (Inr v, db')"
  shows "length (getArtifactVersionHistory db' (cv_artifactId args)) =
         length (getArtifactVersionHistory db (cv_artifactId args)) + 1"
  using createArtifactVersion_success(1,2,8,9,10) [OF assms]
  by (simp add: history_length filter_map comp_def)

lemma restoreArtifactVersion_success:
  assumes "restoreArtifactVersion env args db = (Inr v, db')"
  obtains x xs where
          "filter (\<lambda>r. av_id r = rv_versionId args \<and> av_artifactId r = rv_artifactId args)
             (artifactVersion db) = x # xs"
          "createArtifactVersion env
                \<lparr>cv_artifactId = rv_artifactId args, cv_title = av_title x,
                 cv_content = av_content x,
                 cv_commitMessage = Some (''Restored from version '' @ show_int (av_version x)),
                 cv_authorId = rv_userId args, cv_parentVersionId = None\<rparr> db = (Inr v, db')"
  using assms
  by (auto simp add: restoreArtifactVersion_def Let_def
      split: list.splits prod.splits sum.splits)

lemma restoreArtifactVersion_versions:
  "\<exists>extra. versions_of (snd (restoreArtifactVersion env args db)) b = versions_of db b @ extra"
proof (cases "filter (\<lambda>r. av_id r = rv_versionId args \<and> av_artifactId r = rv_artifactId args)
                (artifactVersion db)")
  case Nil
  then show ?thesis by (simp add: restoreArtifactVersion_def)
next
  case (Cons x xs)
  let ?c = "createArtifactVersion env
                \<lparr>cv_artifactId = rv_artifactId args, cv_title = av_title x,
                 cv_content = av_content x,
                 cv_commitMessage = Some (''Restored from version '' @ show_int (av_version x)),
                 cv_authorId = rv_userId args, cv_parentVersionId = None\<rparr> db"
  have "snd (restoreArtifactVersion env args db) = snd ?c"
    using Cons by (simp add: restoreArtifactVersion_def split: prod.splits sum.splits)
  then show ?thesis using versions_of_snd_create by simp
qed

lemma distinct_id_unique:
  assumes "distinct (map av_id rows)" "t \<in> set rows" "x \<in> set rows" "av_id x = av_id t"
  shows "x = t"
  using assms by (meson distinct_map inj_on_def)


lemma deactivate_commitHash [simp]: "av_commitHash (deactivate a r) = av_commitHash r"
  by (simp add: deactivate_def)

lemma createArtifactVersion_succeeds:
  assumes doc: "document db (cv_artifactId args) \<noteq> None"
    and usr: "user db (cv_authorId args) \<noteq> None"
    and vid: "newVersionId env \<notin> set (map av_id (artifactVersion db))"
    and lid: "newLogId env \<notin> set (map cl_id (artifactChangeLog db))"
    and par: "cv_parentVersionId args = None"
    and n: "n = (if versions_of db (cv_artifactId args) = [] then 1
                 else Max (set (versions_of db (cv_artifactId args))) + 1)"
    and hash: "generateCommitHash env (cv_artifactId args) n (cv_content args)
                 \<notin> set (map av_commitHash (artifactVersion db))"
    and lo: "- 2147483648 \<le> n"
    and hi: "n \<le> 2147483647"
  shows "\<exists>v db'. createArtifactVersion env args db = (Inr v, db')"
proof -
  have nv: "(case select_latest_version db (cv_artifactId args) of None \<Rightarrow> 0
             | Some v \<Rightarrow> (if v = 0 then 0 else v)) + 1 = n"
    using n by (simp add: select_latest_version_eq)
  obtain d where d: "document db (cv_artifactId args) = Some d"
    using doc by auto
  show ?thesis
    using usr vid lid par hash lo hi d
    unfolding createArtifactVersion_def Let_def nv
    by (simp add: version_insert_ok_def log_insert_ok_def logArtifactChange_def comp_def
        del: not_None_eq)
qed

lemma restoreArtifactVersion_result:
  assumes "distinct (map av_id (artifactVersion db))"
    and "t \<in> set (artifactVersion db)"
    and "av_id t = rv_versionId args"
    and "av_artifactId t = rv_artifactId args"
    and "restoreArtifactVersion env args db = (Inr v, db')"
  shows "av_content v = av_content t
       \<and> av_title v = av_title t
       \<and> av_commitMessage v = Some (''Restored from version '' @ show_int (av_version t))
       \<and> av_id v \<notin> set (map av_id (artifactVersion db))
       \<and> artifactVersion db' =
           map (deactivate (rv_artifactId args)) (artifactVersion db) @ [v]
       \<and> length (getArtifactVersionHistory db' (rv_artifactId args)) =
           length (getArtifactVersionHistory db (rv_artifactId args)) + 1"
proof -
  from restoreArtifactVersion_success [OF assms(5)] obtain x xs where
    sel: "filter (\<lambda>r. av_id r = rv_versionId args \<and> av_artifactId r = rv_artifactId args)
            (artifactVersion db) = x # xs" and
    call: "createArtifactVersion env
             \<lparr>cv_artifactId = rv_artifactId args, cv_title = av_title x,
              cv_content = av_content x,
              cv_commitMessage = Some (''Restored from version '' @ show_int (av_version x)),
              cv_authorId = rv_userId args, cv_parentVersionId = None\<rparr> db = (Inr v, db')"
    by blast
  have "x \<in> set (filter (\<lambda>r. av_id r = rv_versionId args \<and> av_artifactId r = rv_artifactId args)
            (artifactVersion db))"
    unfolding sel by simp
  then have "x \<in> set (artifactVersion db)" and "av_id x = av_id t"
    using assms(3) by simp_all
  then have x: "x = t"
    using distinct_id_unique [OF assms(1,2)] by blast
  show ?thesis
    using createArtifactVersion_success(1,5,6,7) [OF call]
      createArtifactVersion_fresh_id [OF call] history_length_after_create [OF call] x
    by simp
qed

lemma restoreArtifactVersion_succeeds:
  assumes dist: "distinct (map av_id (artifactVersion db))"
    and t: "t \<in> set (artifactVersion db)"
    and tid: "av_id t = rv_versionId args"
    and ta: "av_artifactId t = rv_artifactId args"
    and doc: "document db (rv_artifactId args) \<noteq> None"
    and usr: "user db (rv_userId args) \<noteq> None"
    and vid: "newVersionId env \<notin> set (map av_id (artifactVersion db))"
    and lid: "newLogId env \<notin> set (map cl_id (artifactChangeLog db))"
    and hash: "generateCommitHash env (rv_artifactId args)
                 (Max (set (versions_of db (rv_artifactId args))) + 1) (av_content t)
                 \<notin> set (map av_commitHash (artifactVersion db))"
    and lo: "- 2147483648 \<le> Max (set (versions_of db (rv_artifactId args))) + 1"
    and hi: "Max (set (versions_of db (rv_artifactId args))) + 1 \<le> 2147483647"
  shows "\<exists>v db'. restoreArtifactVersion env args db = (Inr v, db')"
proof -
  let ?P = "\<lambda>r. av_id r = rv_versionId args \<and> av_artifactId r = rv_artifactId args"
  have "t \<in> set (filter ?P (artifactVersion db))"
    using t tid ta by simp
  then obtain x xs where sel: "filter ?P (artifactVersion db) = x # xs"
    by (cases "filter ?P (artifactVersion db)") auto
  have "x \<in> set (filter ?P (artifactVersion db))"
    unfolding sel by simp
  then have "x \<in> set (artifactVersion db)" and "av_id x = av_id t"
    using tid by simp_all
  then have x: "x = t"
    using distinct_id_unique [OF dist t] by blast
  let ?a = "\<lparr>cv_artifactId = rv_artifactId args, cv_title = av_title t,
              cv_content = av_content t,
              cv_commitMessage = Some (''Restored from version '' @ show_int (av_version t)),
              cv_authorId = rv_userId args, cv_parentVersionId = None\<rparr>"
  have ne: "versions_of db (rv_artifactId args) \<noteq> []"
    using t ta by (auto simp add: versions_of_def filter_empty_conv)
  have "\<exists>v db'. createArtifactVersion env ?a db = (Inr v, db')"
    by (rule createArtifactVersion_succeeds
          [where n = "Max (set (versions_of db (rv_artifactId args))) + 1"])
       (use doc usr vid lid hash lo hi ne in simp_all)
  then obtain v db' where "createArtifactVersion env ?a db = (Inr v, db')"
    by blast
  then have "restoreArtifactVersion env args db = (Inr v, db')"
    using sel x by (simp add: restoreArtifactVersion_def)
  then show ?thesis by blast
qed

section \<open>Properties of the version store\<close>

text \<open>
  Claim C1: after a non-empty sequence of successful \<^verbatim>\<open>createArtifactVersion\<close> calls on one
  artifact, made one after the other, exactly one row of the artifact is active, and it
  is the version the last call returned. This holds from every starting state.
\<close>

theorem active_version_unique:
  assumes "create_versions cs db = Some (vs, db')"
    and "cs \<noteq> []"
    and "\<forall>c\<in>set cs. cv_artifactId (snd c) = a"
  shows "filter (\<lambda>r. av_artifactId r = a \<and> av_isActive r) (artifactVersion db') = [last vs]"
proof -
  obtain dbm where
    call: "createArtifactVersion (fst (last cs)) (snd (last cs)) dbm = (Inr (last vs), db')"
    using create_versions_last [OF assms(1,2)] by blast
  have "cv_artifactId (snd (last cs)) = a"
    using assms(2,3) by simp
  then show ?thesis
    using active_after_create [OF call] by simp
qed

text \<open>
  Claim C1 on the scenario: two versions are created for artifact \<^verbatim>\<open>d1\<close>; the second is
  the only active one.
\<close>

theorem active_version_unique_witness:
  "create_versions scenario_calls scenario_db \<noteq> None
   \<and> map (cv_artifactId \<circ> snd) scenario_calls = [''d1'', ''d1'']
   \<and> filter (\<lambda>r. av_artifactId r = ''d1'' \<and> av_isActive r) (artifactVersion scenario_db2) =
       [scenario_v2]"
proof -
  have ok: "create_versions scenario_calls scenario_db \<noteq> None"
    by code_simp
  then have run: "create_versions scenario_calls scenario_db =
      Some (fst (the (create_versions scenario_calls scenario_db)), scenario_db2)"
    by (simp add: scenario_db2_def)
  have ne: "scenario_calls \<noteq> []"
    by (simp add: scenario_calls_def)
  have ids: "map (cv_artifactId \<circ> snd) scenario_calls = [''d1'', ''d1'']"
    by (simp add: scenario_calls_def scenario_create_def)
  then have all: "\<forall>c\<in>set scenario_calls. cv_artifactId (snd c) = ''d1''"
    by (simp add: scenario_calls_def scenario_create_def)
  have l: "last (fst (the (create_versions scenario_calls scenario_db))) = scenario_v2"
    by code_simp
  show ?thesis
    using active_version_unique [OF run ne all] ok ids l by simp
qed

text \<open>
  Claim C3: a successful \<^verbatim>\<open>createArtifactVersion\<close> returns the largest existing version
  number of the artifact plus one (1 when there is none); in a sequence of successful
  calls on one artifact each returned number is the previous one plus one; and
  \<^verbatim>\<open>restoreArtifactVersion\<close>, whether it succeeds or fails, keeps every existing version
  number of every artifact in place, and on success returns a number that no existing
  version of the artifact has.
\<close>

theorem version_numbers_append_only:
  "(createArtifactVersion env args db = (Inr v, db1) \<longrightarrow>
      av_version v =
        (if versions_of db (cv_artifactId args) = [] then 1
         else Max (set (versions_of db (cv_artifactId args))) + 1))
   \<and> (create_versions cs db0 = Some (vs, db2) \<and> (\<forall>c\<in>set cs. cv_artifactId (snd c) = a) \<longrightarrow>
        (\<forall>i. Suc i < length vs \<longrightarrow> av_version (vs ! Suc i) = av_version (vs ! i) + 1))
   \<and> (restoreArtifactVersion env' rargs dbr = (res, db3) \<longrightarrow>
        (\<forall>b. \<exists>extra. versions_of db3 b = versions_of dbr b @ extra)
        \<and> (\<forall>w. res = Inr w \<longrightarrow> av_version w \<notin> set (versions_of dbr (rv_artifactId rargs))))"
proof (intro conjI impI allI)
  assume "createArtifactVersion env args db = (Inr v, db1)"
  then show "av_version v =
        (if versions_of db (cv_artifactId args) = [] then 1
         else Max (set (versions_of db (cv_artifactId args))) + 1)"
    by (rule createArtifactVersion_success(4))
next
  fix i
  assume run: "create_versions cs db0 = Some (vs, db2) \<and> (\<forall>c\<in>set cs. cv_artifactId (snd c) = a)"
    and i: "Suc i < length vs"
  let ?n = "if versions_of db0 a = [] then 1 else Max (set (versions_of db0 a)) + 1"
  have m: "map av_version vs = map (\<lambda>k. ?n + int k) [0..<length cs]"
    using create_versions_consecutive run by blast
  then have len: "length vs = length cs"
    by (metis length_map length_upt diff_zero)
  have "av_version (vs ! Suc i) = map av_version vs ! Suc i"
    using i by simp
  also have "\<dots> = ?n + int (Suc i)"
    unfolding m using i len by (simp del: upt.simps)
  finally have a: "av_version (vs ! Suc i) = ?n + int (Suc i)" .
  have "av_version (vs ! i) = map av_version vs ! i"
    using i by simp
  also have "\<dots> = ?n + int i"
    unfolding m using i len by (simp del: upt.simps)
  finally show "av_version (vs ! Suc i) = av_version (vs ! i) + 1"
    using a by simp
next
  fix b
  assume "restoreArtifactVersion env' rargs dbr = (res, db3)"
  then have "db3 = snd (restoreArtifactVersion env' rargs dbr)" by simp
  then show "\<exists>extra. versions_of db3 b = versions_of dbr b @ extra"
    using restoreArtifactVersion_versions by simp
next
  fix w
  assume "restoreArtifactVersion env' rargs dbr = (res, db3)" and "res = Inr w"
  then have "restoreArtifactVersion env' rargs dbr = (Inr w, db3)" by simp
  from restoreArtifactVersion_success [OF this] obtain x xs where
    "filter (\<lambda>r. av_id r = rv_versionId rargs \<and> av_artifactId r = rv_artifactId rargs)
       (artifactVersion dbr) = x # xs" and
    "createArtifactVersion env'
       \<lparr>cv_artifactId = rv_artifactId rargs, cv_title = av_title x, cv_content = av_content x,
        cv_commitMessage = Some (''Restored from version '' @ show_int (av_version x)),
        cv_authorId = rv_userId rargs, cv_parentVersionId = None\<rparr> dbr = (Inr w, db3)"
    by blast
  from new_number_unused [OF this(2)]
  show "av_version w \<notin> set (versions_of dbr (rv_artifactId rargs))" by simp
qed


text \<open>
  Claim C3 on the scenario: the two created versions are numbered 1 and 2, the restored
  one 3.
\<close>

theorem version_numbers_append_only_witness:
  "av_version scenario_v1 = 1
   \<and> map av_version (fst (the (create_versions scenario_calls scenario_db))) = [1, 2]
   \<and> versions_of scenario_db2 ''d1'' = [1, 2]
   \<and> versions_of (snd (restoreArtifactVersion (scenario_env 3) scenario_restore scenario_db2))
        ''d1'' = [1, 2, 3]
   \<and> map_sum (\<lambda>e. e) av_version
        (fst (restoreArtifactVersion (scenario_env 3) scenario_restore scenario_db2)) = Inr 3
   \<and> 3 \<notin> set (versions_of scenario_db2 ''d1'')"
proof -
  let ?c1 = "createArtifactVersion (scenario_env 1) (scenario_create ''A'') scenario_db"
  let ?run = "create_versions scenario_calls scenario_db"
  let ?r = "restoreArtifactVersion (scenario_env 3) scenario_restore scenario_db2"
  note inst = version_numbers_append_only
    [of "scenario_env 1" "scenario_create ''A''" scenario_db scenario_v1 "snd ?c1"
        scenario_calls scenario_db "fst (the ?run)" scenario_db2 "''d1''"
        "scenario_env 3" scenario_restore scenario_db2 "fst ?r" "snd ?r"]
  have f1: "fst ?c1 = Inr scenario_v1" by code_simp
  then have h1: "?c1 = (Inr scenario_v1, snd ?c1)" by (simp add: prod_eq_iff)
  have "?run \<noteq> None" by code_simp
  then have h2: "?run = Some (fst (the ?run), scenario_db2)"
    by (simp add: scenario_db2_def)
  have h2': "\<forall>c\<in>set scenario_calls. cv_artifactId (snd c) = ''d1''"
    by (simp add: scenario_calls_def scenario_create_def)
  have len: "length (fst (the ?run)) = 2" by code_simp
  have e0: "versions_of scenario_db ''d1'' = []" by code_simp
  have e1: "av_version (fst (the ?run) ! 0) = 1" by code_simp
  have e2: "versions_of scenario_db2 ''d1'' = [1, 2]" by code_simp
  have e3: "versions_of (snd ?r) ''d1'' = [1, 2, 3]" by code_simp
  have e4: "map_sum (\<lambda>e. e) av_version (fst ?r) = Inr 3" by code_simp
  have a1: "cv_artifactId (scenario_create ''A'') = ''d1''"
    by (simp add: scenario_create_def)
  have c1: "av_version scenario_v1 = 1"
    using inst h1 e0 unfolding a1 by simp
  have "av_version (fst (the ?run) ! Suc 0) = av_version (fst (the ?run) ! 0) + 1"
    using inst h2 h2' len by simp
  then have "map av_version (fst (the ?run)) = [av_version (fst (the ?run) ! 0),
      av_version (fst (the ?run) ! 0) + 1]"
    using len by (cases "fst (the ?run)"; cases "tl (fst (the ?run))") auto
  then have c2: "map av_version (fst (the ?run)) = [1, 2]"
    using e1 by simp
  have h3: "?r = (fst ?r, snd ?r)" by simp
  have "\<not> isl (fst ?r)" by code_simp
  then have r: "fst ?r = Inr (projr (fst ?r))" by (cases "fst ?r") simp_all
  have w: "av_version (projr (fst ?r)) = 3" by code_simp
  have a3: "rv_artifactId scenario_restore = ''d1''" by (simp add: scenario_restore_def)
  have "av_version (projr (fst ?r)) \<notin> set (versions_of scenario_db2 ''d1'')"
    using inst h3 r unfolding a3 by blast
  then have c3: "3 \<notin> set (versions_of scenario_db2 ''d1'')"
    unfolding w .
  show ?thesis using c1 c2 c3 e2 e3 e4 by simp
qed

text \<open>
  Claim C6, as the code has it: let the version \<open>t\<close> with the given id belong to the
  artifact, in a table whose ids are distinct. When the database accepts the two rows
  the call inserts (the artifact's document and the user exist, the generated version
  and log ids and the commit hash are not in use, the next version number fits an
  \<^verbatim>\<open>integer\<close> column), \<^verbatim>\<open>restoreArtifactVersion\<close> succeeds and returns a new row with the
  content and title of \<open>t\<close> and the commit message \<^verbatim>\<open>Restored from version n\<close>, \<open>n\<close> the
  version number of \<open>t\<close>; every earlier row is still in the table, the new row comes
  after them, and the history of the artifact is one entry longer.
\<close>

theorem restoreArtifactVersion_appends:
  assumes "distinct (map av_id (artifactVersion db))"
    and "t \<in> set (artifactVersion db)"
    and "av_id t = rv_versionId args"
    and "av_artifactId t = rv_artifactId args"
    and "document db (rv_artifactId args) \<noteq> None"
    and "user db (rv_userId args) \<noteq> None"
    and "newVersionId env \<notin> set (map av_id (artifactVersion db))"
    and "newLogId env \<notin> set (map cl_id (artifactChangeLog db))"
    and "generateCommitHash env (rv_artifactId args)
           (Max (set (versions_of db (rv_artifactId args))) + 1) (av_content t)
           \<notin> set (map av_commitHash (artifactVersion db))"
    and "- 2147483648 \<le> Max (set (versions_of db (rv_artifactId args))) + 1"
    and "Max (set (versions_of db (rv_artifactId args))) + 1 \<le> 2147483647"
  shows "\<exists>v db'. restoreArtifactVersion env args db = (Inr v, db')
       \<and> av_content v = av_content t
       \<and> av_title v = av_title t
       \<and> av_commitMessage v = Some (''Restored from version '' @ show_int (av_version t))
       \<and> av_id v \<notin> set (map av_id (artifactVersion db))
       \<and> artifactVersion db' =
           map (deactivate (rv_artifactId args)) (artifactVersion db) @ [v]
       \<and> length (getArtifactVersionHistory db' (rv_artifactId args)) =
           length (getArtifactVersionHistory db (rv_artifactId args)) + 1"
proof -
  obtain v db' where call: "restoreArtifactVersion env args db = (Inr v, db')"
    using restoreArtifactVersion_succeeds [OF assms] by blast
  from restoreArtifactVersion_result [OF assms(1-4) call] call
  show ?thesis by blast
qed

text \<open>
  Claim C6 on the scenario: after versions 1 (content \<^verbatim>\<open>A\<close>) and 2 (content \<^verbatim>\<open>B\<close>),
  restoring version 1 gives version 3 with content \<^verbatim>\<open>A\<close>, and the history has 3 entries.
\<close>

theorem restoreArtifactVersion_appends_witness:
  "map av_id (artifactVersion scenario_db2) = [''v1'', ''v2'']
   \<and> map_sum (\<lambda>e. e) (\<lambda>v. (av_id v, av_version v, av_title v, av_content v, av_commitMessage v))
        (fst (restoreArtifactVersion (scenario_env 3) scenario_restore scenario_db2)) =
       Inr (''v3'', 3, ''Doc'', ''A'', Some ''Restored from version 1'')
   \<and> length (getArtifactVersionHistory scenario_db2 ''d1'') = 2
   \<and> length (getArtifactVersionHistory
        (snd (restoreArtifactVersion (scenario_env 3) scenario_restore scenario_db2)) ''d1'') = 3"
proof -
  let ?r = "restoreArtifactVersion (scenario_env 3) scenario_restore scenario_db2"
  let ?t = "scenario_v1\<lparr>av_isActive := False\<rparr>"
  have ids: "map av_id (artifactVersion scenario_db2) = [''v1'', ''v2'']" by code_simp
  then have h1: "distinct (map av_id (artifactVersion scenario_db2))" by simp
  have h2: "?t \<in> set (artifactVersion scenario_db2)" by code_simp
  have h3: "av_id ?t = rv_versionId scenario_restore"
    by (simp add: scenario_v1_def scenario_restore_def)
  have h4: "av_artifactId ?t = rv_artifactId scenario_restore"
    by (simp add: scenario_v1_def scenario_restore_def)
  have h5: "document scenario_db2 (rv_artifactId scenario_restore) \<noteq> None" by code_simp
  have h6: "user scenario_db2 (rv_userId scenario_restore) \<noteq> None" by code_simp
  have h7: "newVersionId (scenario_env 3) \<notin> set (map av_id (artifactVersion scenario_db2))"
    by code_simp
  have h8: "newLogId (scenario_env 3) \<notin> set (map cl_id (artifactChangeLog scenario_db2))"
    by code_simp
  have h9: "generateCommitHash (scenario_env 3) (rv_artifactId scenario_restore)
           (Max (set (versions_of scenario_db2 (rv_artifactId scenario_restore))) + 1)
           (av_content ?t)
           \<notin> set (map av_commitHash (artifactVersion scenario_db2))"
    by code_simp
  have h10: "- 2147483648 \<le> Max (set (versions_of scenario_db2 (rv_artifactId scenario_restore))) + 1"
    by code_simp
  have h11: "Max (set (versions_of scenario_db2 (rv_artifactId scenario_restore))) + 1 \<le> 2147483647"
    by code_simp
  from restoreArtifactVersion_appends [OF h1 h2 h3 h4 h5 h6 h7 h8 h9 h10 h11]
  obtain v db' where
    r: "?r = (Inr v, db')" and
    c: "av_content v = av_content ?t" and
    ti: "av_title v = av_title ?t" and
    m: "av_commitMessage v = Some (''Restored from version '' @ show_int (av_version ?t))" and
    len: "length (getArtifactVersionHistory db' (rv_artifactId scenario_restore)) =
          length (getArtifactVersionHistory scenario_db2 (rv_artifactId scenario_restore)) + 1"
    by blast
  have t: "av_content ?t = ''A''" "av_title ?t = ''Doc''" "av_version ?t = 1"
    by (simp_all add: scenario_v1_def)
  have s1: "show_int 1 = ''1''"
    by (simp add: show_int_def show_nat.simps digit_char_def)
  have idv: "av_id (projr (fst ?r)) = ''v3''" "av_version (projr (fst ?r)) = 3" by code_simp+
  then have idv': "av_id v = ''v3''" "av_version v = 3" using r by simp_all
  have hl: "length (getArtifactVersionHistory scenario_db2 ''d1'') = 2" by code_simp
  have a: "rv_artifactId scenario_restore = ''d1''" by (simp add: scenario_restore_def)
  show ?thesis
    using ids hl idv' c ti m len unfolding t a s1 r
    by simp
qed

text \<open>
  Claim C6 as stated fails: in the same scenario version \<^verbatim>\<open>v1\<close> of artifact \<^verbatim>\<open>d1\<close> exists,
  but a restore on behalf of \<^verbatim>\<open>u9\<close>, who is not in the \<^verbatim>\<open>User\<close> table, is rejected by the
  reference on \<^verbatim>\<open>authorId\<close>: the call throws, no row is added and the history keeps its
  length.
\<close>

theorem restoreArtifactVersion_appends_counterexample:
  "map av_id (artifactVersion scenario_db2) = [''v1'', ''v2'']
   \<and> map av_artifactId (artifactVersion scenario_db2) = [''d1'', ''d1'']
   \<and> isl (fst (restoreArtifactVersion (scenario_env 3) scenario_restore_unknown scenario_db2))
   \<and> map av_id (artifactVersion
        (snd (restoreArtifactVersion (scenario_env 3) scenario_restore_unknown scenario_db2))) =
       [''v1'', ''v2'']
   \<and> length (getArtifactVersionHistory
        (snd (restoreArtifactVersion (scenario_env 3) scenario_restore_unknown scenario_db2))
        ''d1'') \<noteq>
       length (getArtifactVersionHistory scenario_db2 ''d1'') + 1"
  by code_simp

text \<open>
  Claim C7 at a database where artifact \<^verbatim>\<open>d1\<close> already has a branch \<^verbatim>\<open>main\<close>: creating
  another branch \<^verbatim>\<open>main\<close> for it succeeds, and the artifact then has two branches of
  that name.
\<close>

theorem createArtifactBranch_duplicate_name:
  "map ab_name (filter (\<lambda>b. ab_artifactId b = ''d1'') (artifactBranch scenario_branch_db)) =
     [''main'']
   \<and> fst (createArtifactBranch (scenario_env 2) scenario_branch scenario_branch_db) = Inr ()
   \<and> map ab_name (filter (\<lambda>b. ab_artifactId b = ''d1'')
        (artifactBranch
           (snd (createArtifactBranch (scenario_env 2) scenario_branch scenario_branch_db)))) =
     [''main'', ''main'']"
  by code_simp

end
